theory Spec2Isabelle
  imports
    Main
    "HOL-Library.Word"
    "HOL-Library.Char_ord"
    "HOL-Library.List_Lexorder"
    "HOL-Library.AList"
    "HOL-Library.Multiset"
begin

unbundle bit_operations_syntax

section \<open>File modes (mode.go)\<close>

text \<open>
  \<^verbatim>\<open>type FileMode os.FileMode\<close>: a 32-bit unsigned word. The constants of Go's package
  \<^verbatim>\<open>os\<close> are \<^verbatim>\<open>1 << (32 - 1 - iota)\<close>, starting at \<^verbatim>\<open>ModeDir\<close>; the package's own
  \<^verbatim>\<open>ModeRegular\<close> is the thirteenth constant of its block, \<^verbatim>\<open>1 << (31 - 12)\<close>.
\<close>

type_synonym FileMode = "32 word"

definition ModeDir :: FileMode where "ModeDir = push_bit 31 1"
definition ModeAppend :: FileMode where "ModeAppend = push_bit 30 1"
definition ModeExclusive :: FileMode where "ModeExclusive = push_bit 29 1"
definition ModeTemporary :: FileMode where "ModeTemporary = push_bit 28 1"
definition ModeSymlink :: FileMode where "ModeSymlink = push_bit 27 1"
definition ModeDevice :: FileMode where "ModeDevice = push_bit 26 1"
definition ModeNamedPipe :: FileMode where "ModeNamedPipe = push_bit 25 1"
definition ModeSocket :: FileMode where "ModeSocket = push_bit 24 1"
definition ModeSetuid :: FileMode where "ModeSetuid = push_bit 23 1"
definition ModeSetgid :: FileMode where "ModeSetgid = push_bit 22 1"
definition ModeCharDevice :: FileMode where "ModeCharDevice = push_bit 21 1"
definition ModeSticky :: FileMode where "ModeSticky = push_bit 20 1"
definition ModeRegular :: FileMode where "ModeRegular = push_bit (31 - 12) 1"

definition ModeType :: FileMode where
  "ModeType = ModeDir OR ModeSymlink OR ModeNamedPipe OR ModeSocket OR ModeDevice OR ModeRegular"

definition ModePerm :: FileMode where "ModePerm = 511"  \<comment> \<open>octal 0777\<close>

text \<open>
  Go's \<^verbatim>\<open>os.ModeType\<close> and \<^verbatim>\<open>os.FileMode.IsRegular\<close> (standard library): the type
  bits of a native mode, and "no type bit is set".
\<close>

definition os_ModeIrregular :: FileMode where "os_ModeIrregular = push_bit 19 1"

definition os_ModeType :: FileMode where
  "os_ModeType = ModeDir OR ModeSymlink OR ModeNamedPipe OR ModeSocket OR ModeDevice
                 OR ModeCharDevice OR os_ModeIrregular"

definition os_IsRegular :: "FileMode \<Rightarrow> bool" where
  "os_IsRegular m = (m AND os_ModeType = 0)"

definition IsDir :: "FileMode \<Rightarrow> bool" where
  "IsDir m = (m AND ModeDir \<noteq> 0)"

definition IsRegular :: "FileMode \<Rightarrow> bool" where
  "IsRegular m =
     (if m AND ModeRegular \<noteq> 0 then True
      else if m AND ModeType = 0 then True
      else False)"

definition Perm :: "FileMode \<Rightarrow> FileMode" where
  "Perm m = m AND ModePerm"

definition IsExecutable :: "FileMode \<Rightarrow> bool" where
  "IsExecutable m = (IsRegular m \<and> m AND 73 \<noteq> 0)"  \<comment> \<open>octal 0111\<close>

text \<open>
  \<^verbatim>\<open>FileInfo.Mode\<close>: the argument is the native mode \<^verbatim>\<open>i.FileInfo.Mode()\<close> of the wrapped
  \<^verbatim>\<open>os.FileInfo\<close>.
\<close>

definition FileInfo_Mode :: "FileMode \<Rightarrow> FileMode" where
  "FileInfo_Mode m = (if m AND os_ModeType = 0 then ModeRegular else m)"

section \<open>Errors and outcomes\<close>

text \<open>
  \<^verbatim>\<open>EOF\<close> is \<^verbatim>\<open>io.EOF\<close>; \<^verbatim>\<open>SysError\<close> stands for the errors of the operating system
  (\<^verbatim>\<open>*PathError\<close> and the like); \<^verbatim>\<open>Errorf_parts e\<close> is \<^verbatim>\<open>fmt.Errorf("parts: %s", e)\<close>.
  A run-time panic is not a returned error: it is its own outcome.
\<close>

datatype error = EOF | SysError string | Errorf_parts error

datatype panic = SliceBoundsOutOfRange int | NilDereference

datatype 'a outcome = Returns 'a | Panics panic

section \<open>Paths and string comparison (Go standard library, Unix)\<close>

definition Separator :: char where "Separator = CHR ''/''"

text \<open>
  \<^verbatim>\<open>filepath.Base\<close>: the empty path is \<^verbatim>\<open>"."\<close>; trailing separators are stripped; the
  last element is what follows the last separator; a path of separators only is \<^verbatim>\<open>"/"\<close>.
\<close>

definition filepath_Base :: "string \<Rightarrow> string" where
  "filepath_Base path =
     (if path = [] then ''.''
      else let stripped = rev (dropWhile (\<lambda>c. c = Separator) (rev path));
               lastElem = rev (takeWhile (\<lambda>c. c \<noteq> Separator) (rev stripped))
           in if lastElem = [] then [Separator] else lastElem)"

text \<open>The elements of a path between its separators (\<^verbatim>\<open>"a//b"\<close> has an empty one).\<close>

fun split_path :: "string \<Rightarrow> string list" where
  "split_path [] = [[]]"
| "split_path (c # cs) =
     (if c = Separator then [] # split_path cs
      else (c # hd (split_path cs)) # tl (split_path cs))"

text \<open>
  \<^verbatim>\<open>filepath.Clean\<close>, by elements: empty elements and \<^verbatim>\<open>"."\<close> vanish; \<^verbatim>\<open>".."\<close> removes the
  element before it unless that is \<^verbatim>\<open>".."\<close> too, is dropped at the root, and is kept at the
  start of a relative path. The stack holds the kept elements, last one first.
\<close>

definition clean_step :: "bool \<Rightarrow> string list \<Rightarrow> string \<Rightarrow> string list" where
  "clean_step rooted stack elem =
     (if elem = [] \<or> elem = ''.'' then stack
      else if elem = ''..'' then
        (case stack of
           [] \<Rightarrow> if rooted then [] else [''..'']
         | e # below \<Rightarrow> if e = ''..'' then ''..'' # stack else below)
      else elem # stack)"

fun join_elems :: "string list \<Rightarrow> string" where
  "join_elems [] = []"
| "join_elems [e] = e"
| "join_elems (e # es) = e @ Separator # join_elems es"

definition filepath_Clean :: "string \<Rightarrow> string" where
  "filepath_Clean path =
     (let rooted = (path \<noteq> [] \<and> hd path = Separator);
          body = join_elems (rev (foldl (clean_step rooted) [] (split_path path)))
      in if rooted then Separator # body
         else if body = [] then ''.'' else body)"

text \<open>
  \<^verbatim>\<open>filepath.Join(dir, name)\<close> with two elements: the elements from the first non-empty
  one on are joined with the separator and cleaned; all empty gives the empty string.
\<close>

definition filepath_Join :: "string \<Rightarrow> string \<Rightarrow> string" where
  "filepath_Join dir name =
     (if dir \<noteq> [] then filepath_Clean (dir @ Separator # name)
      else if name \<noteq> [] then filepath_Clean name
      else [])"

text \<open>\<^verbatim>\<open>strings.Compare\<close>: bytewise lexicographic, \<open>-1\<close>, \<open>0\<close> or \<open>1\<close>.\<close>

fun strings_Compare :: "string \<Rightarrow> string \<Rightarrow> int" where
  "strings_Compare [] [] = 0"
| "strings_Compare [] (y # ys) = - 1"
| "strings_Compare (x # xs) [] = 1"
| "strings_Compare (x # xs) (y # ys) =
     (if (of_char x :: nat) < of_char y then - 1
      else if (of_char y :: nat) < of_char x then 1
      else strings_Compare xs ys)"

section \<open>Sorting by base name (parts.go, pathsByBasename)\<close>

definition Less :: "string \<Rightarrow> string \<Rightarrow> bool" where
  "Less a b = (strings_Compare (filepath_Base a) (filepath_Base b) < 0)"

text \<open>\<^verbatim>\<open>sort.Reverse\<close>: the order with the arguments of \<^verbatim>\<open>Less\<close> exchanged.\<close>

definition Reverse_Less :: "string \<Rightarrow> string \<Rightarrow> bool" where
  "Reverse_Less a b = Less b a"

text \<open>
  \<^verbatim>\<open>sort.Sort\<close> is modelled by insertion sort. Go's algorithm is not stable and the
  order in which a Go map is iterated is unspecified; neither shows in the result when no
  two elements compare equal, which \<open>sort_Sort_unique\<close> below makes precise.
\<close>

fun sort_insert :: "('a \<Rightarrow> 'a \<Rightarrow> bool) \<Rightarrow> 'a \<Rightarrow> 'a list \<Rightarrow> 'a list" where
  "sort_insert lt x [] = [x]"
| "sort_insert lt x (y # ys) =
     (if lt x y then x # y # ys else y # sort_insert lt x ys)"

fun sort_Sort :: "('a \<Rightarrow> 'a \<Rightarrow> bool) \<Rightarrow> 'a list \<Rightarrow> 'a list" where
  "sort_Sort lt [] = []"
| "sort_Sort lt (x # xs) = sort_insert lt x (sort_Sort lt xs)"

section \<open>The file system\<close>

text \<open>
  An open file (\<^verbatim>\<open>*os.File\<close>): the bytes not yet read, the error a read reports once
  they are used up (none: the file ends cleanly with \<^verbatim>\<open>io.EOF\<close>), what
  \<^verbatim>\<open>Readdirnames(0)\<close> returns on it, and what \<^verbatim>\<open>Close\<close> returns on it.
\<close>

type_synonym byte = "8 word"

record File =
  unread :: "byte list"
  read_err :: "error option"
  dirents :: "error + string list"
  close_err :: "error option"

text \<open>
  The operating system as the package sees it: \<^verbatim>\<open>os.Stat\<close> (follows symbolic links) and
  \<^verbatim>\<open>os.Lstat\<close> (does not), each giving the native mode of the \<^verbatim>\<open>os.FileInfo\<close>, and
  \<^verbatim>\<open>os.Open\<close>.
\<close>

record filesys =
  os_Stat :: "string \<Rightarrow> error + FileMode"
  os_Lstat :: "string \<Rightarrow> error + FileMode"
  os_Open :: "string \<Rightarrow> error + File"

text \<open>
  \<^verbatim>\<open>os.File.Read\<close> into a buffer of \<open>k\<close> bytes: nothing for an empty buffer, the end
  (or the file's read error) when no byte is left, up to \<open>k\<close> bytes otherwise. The bytes
  written into the buffer are returned with the error and the file.
\<close>

definition file_Read :: "File \<Rightarrow> nat \<Rightarrow> byte list \<times> error option \<times> File" where
  "file_Read f k =
     (if k = 0 then ([], None, f)
      else if unread f = [] then
        ([], Some (case read_err f of None \<Rightarrow> EOF | Some e \<Rightarrow> e), f)
      else (take k (unread f), None, f\<lparr>unread := drop k (unread f)\<rparr>))"

text \<open>
  \<^verbatim>\<open>io.MultiReader\<close>'s \<^verbatim>\<open>Read\<close>: the state is the list of readers not yet exhausted.
  A reader at its end is dropped; the call returns as soon as bytes were read or an error
  other than the end was met, and turns the end of a reader into no error while readers
  remain.
\<close>

fun multiReader_Read :: "File list \<Rightarrow> nat \<Rightarrow> byte list \<times> error option \<times> File list" where
  "multiReader_Read [] k = ([], Some EOF, [])"
| "multiReader_Read (r # rs) k =
     (case file_Read r k of (bs, err, r') \<Rightarrow>
        if err = Some EOF then
          (if bs \<noteq> [] then (bs, if rs \<noteq> [] then None else Some EOF, rs)
           else multiReader_Read rs k)
        else (bs, err, r' # rs))"

section \<open>Configuration and session (parts.go)\<close>

text \<open>
  A compiled \<^verbatim>\<open>*regexp.Regexp\<close> is its \<^verbatim>\<open>MatchString\<close> predicate; \<open>None\<close> is the nil
  pointer.
\<close>

type_synonym Regexp = "string \<Rightarrow> bool"

record Config =
  Reverse :: bool
  ModeTypeFilter :: FileMode
  ModePermFilter :: FileMode
  RegExpFilter :: "Regexp option"

definition DefaultModeTypeFilter :: FileMode where "DefaultModeTypeFilter = ModeRegular"
definition DefaultModePermFilter :: FileMode where "DefaultModePermFilter = ModePerm"
definition ExecutableModePermFilter :: FileMode where "ExecutableModePermFilter = 73"
definition ExecutableModeTypeFilter :: FileMode where "ExecutableModeTypeFilter = ModeRegular"

text \<open>\<^verbatim>\<open>DefaultRegExpFilter = ".*"\<close> matches every string.\<close>

definition NewDefaultConfig :: Config where
  "NewDefaultConfig =
     \<lparr>Reverse = False,
      ModeTypeFilter = DefaultModeTypeFilter,
      ModePermFilter = DefaultModePermFilter,
      RegExpFilter = Some (\<lambda>name. True)\<rparr>"

text \<open>
  \<open>Reader = None\<close> is the nil interface value a fresh \<^verbatim>\<open>readState\<close> holds. The
  multi-reader keeps the read positions of the files it was built from.
\<close>

record readState =
  Files :: "File list"
  Reader :: "File list option"

record Parts =
  Paths :: "string list"
  Config :: Config
  readState :: "readState option"

definition NewParts :: "string list \<Rightarrow> Config option \<Rightarrow> Parts" where
  "NewParts paths config =
     \<lparr>Paths = paths,
      Config = (case config of None \<Rightarrow> NewDefaultConfig | Some c \<Rightarrow> c),
      readState = None\<rparr>"

definition filter_parts :: "Config \<Rightarrow> string \<Rightarrow> FileMode \<Rightarrow> Regexp option \<Rightarrow> bool" where
  "filter_parts cfg name mode regExp =
     (if regExp \<noteq> None \<and> \<not> (the regExp) name then False
      else if mode AND ModePermFilter cfg = 0 then False
      else if mode AND ModeTypeFilter cfg = 0 then False
      else True)"

text \<open>\<^verbatim>\<open>StatMode\<close> and \<^verbatim>\<open>LstatMode\<close>; on an error Go returns the zero mode with it.\<close>

definition StatMode :: "filesys \<Rightarrow> string \<Rightarrow> error + FileMode" where
  "StatMode fs name =
     (case os_Stat fs name of
        Inl err \<Rightarrow> Inl err
      | Inr m \<Rightarrow> Inr (if os_IsRegular m then m OR ModeRegular else m))"

definition LstatMode :: "filesys \<Rightarrow> string \<Rightarrow> error + FileMode" where
  "LstatMode fs name =
     (case os_Lstat fs name of
        Inl err \<Rightarrow> Inl err
      | Inr m \<Rightarrow> Inr (if os_IsRegular m then m OR ModeRegular else m))"

section \<open>Readdirnames\<close>

text \<open>
  \<^verbatim>\<open>foundNames\<close>, a Go map from base name to full path, is an association list with
  one pair for each key: \<open>map_of\<close> looks a key up and \<open>AList.update\<close> assigns.
\<close>

type_synonym foundNames = "(string \<times> string) list"

text \<open>The inner loop of \<^verbatim>\<open>Readdirnames\<close>, over the names read from the directory \<open>path\<close>.\<close>

fun scan_dir ::
  "filesys \<Rightarrow> Config \<Rightarrow> string \<Rightarrow> string list \<Rightarrow> foundNames \<Rightarrow> error + foundNames" where
  "scan_dir fs cfg path [] found = Inr found"
| "scan_dir fs cfg path (fileName # rest) found =
     (let fullPath = filepath_Join path fileName in
      case StatMode fs fullPath of
        Inl err \<Rightarrow> Inl (Errorf_parts err)
      | Inr mode \<Rightarrow>
          if map_of found fileName \<noteq> None then scan_dir fs cfg path rest found
          else if filter_parts cfg fileName mode (RegExpFilter cfg)
          then scan_dir fs cfg path rest (AList.update fileName fullPath found)
          else scan_dir fs cfg path rest found)"

text \<open>
  The outer loop, over the session's paths. The deferred \<^verbatim>\<open>dir.Close()\<close> has no effect
  on the result and is left out.
\<close>

fun scan_paths ::
  "filesys \<Rightarrow> Config \<Rightarrow> string list \<Rightarrow> foundNames \<Rightarrow> error + foundNames" where
  "scan_paths fs cfg [] found = Inr found"
| "scan_paths fs cfg (path # rest) found =
     (case StatMode fs path of
        Inl err \<Rightarrow> Inl (Errorf_parts err)
      | Inr mode \<Rightarrow>
          if IsDir mode then
            (case os_Open fs path of
               Inl err \<Rightarrow> Inl (Errorf_parts err)
             | Inr dir \<Rightarrow>
                 (case dirents dir of
                    Inl err \<Rightarrow> Inl (Errorf_parts err)
                  | Inr fileNames \<Rightarrow>
                      (case scan_dir fs cfg path fileNames found of
                         Inl err \<Rightarrow> Inl err
                       | Inr found' \<Rightarrow> scan_paths fs cfg rest found')))
          else if map_of found (filepath_Base path) \<noteq> None then scan_paths fs cfg rest found
          else if filter_parts cfg (filepath_Base path) mode None
          then scan_paths fs cfg rest (AList.update (filepath_Base path) path found)
          else scan_paths fs cfg rest found)"

text \<open>
  The end of \<^verbatim>\<open>Readdirnames\<close>: \<^verbatim>\<open>names[0:n]\<close> with a negative \<open>n\<close> is a run-time
  panic. The result is the pair Go returns, the names and the error.
\<close>

definition limit_names :: "int \<Rightarrow> string list \<Rightarrow> (string list \<times> error option) outcome" where
  "limit_names n names =
     (if n = 0 then Returns (names, None)
      else if n < int (length names) then
        (if n < 0 then Panics (SliceBoundsOutOfRange n)
         else Returns (take (nat n) names, None))
      else Returns (names, None))"

definition Readdirnames :: "filesys \<Rightarrow> Parts \<Rightarrow> int \<Rightarrow> (string list \<times> error option) outcome" where
  "Readdirnames fs p n =
     (case scan_paths fs (Config p) (Paths p) [] of
        Inl err \<Rightarrow> Returns ([], Some err)
      | Inr found \<Rightarrow>
          limit_names n
            (sort_Sort (if Reverse (Config p) then Reverse_Less else Less) (map snd found)))"

section \<open>Read and Close\<close>

text \<open>The loop of \<^verbatim>\<open>Read\<close> that opens the files found, appending to \<^verbatim>\<open>readState.Files\<close>.\<close>

fun open_files :: "filesys \<Rightarrow> string list \<Rightarrow> File list \<Rightarrow> File list \<times> error option" where
  "open_files fs [] files = (files, None)"
| "open_files fs (fileName # rest) files =
     (case os_Open fs fileName of
        Inl err \<Rightarrow> (files, Some err)
      | Inr f \<Rightarrow> open_files fs rest (files @ [f]))"

text \<open>
  \<^verbatim>\<open>p.readState.Reader.Read(b)\<close>, the last statement of \<^verbatim>\<open>Read\<close>: a call through a
  nil interface value is a run-time panic.
\<close>

definition Reader_Read ::
  "Parts \<Rightarrow> readState \<Rightarrow> nat \<Rightarrow> (byte list \<times> error option \<times> Parts) outcome" where
  "Reader_Read p rs k =
     (case Reader rs of
        None \<Rightarrow> Panics NilDereference
      | Some readers \<Rightarrow>
          (case multiReader_Read readers k of (bs, err, readers') \<Rightarrow>
             Returns (bs, err, p\<lparr>readState := Some (rs\<lparr>Reader := Some readers'\<rparr>)\<rparr>)))"

text \<open>
  \<^verbatim>\<open>Read\<close> with a buffer of \<open>k\<close> bytes: the bytes read, the error and the session
  after the call. \<^verbatim>\<open>p.readState\<close> is assigned before the files are opened.
\<close>

definition Read :: "filesys \<Rightarrow> Parts \<Rightarrow> nat \<Rightarrow> (byte list \<times> error option \<times> Parts) outcome" where
  "Read fs p k =
     (case readState p of
        None \<Rightarrow>
          (case Readdirnames fs p 0 of
             Panics x \<Rightarrow> Panics x
           | Returns (foundFiles, Some err) \<Rightarrow> Returns ([], Some err, p)
           | Returns (foundFiles, None) \<Rightarrow>
               (case open_files fs foundFiles [] of
                  (files, Some err) \<Rightarrow>
                    Returns ([], Some err, p\<lparr>readState := Some \<lparr>Files = files, Reader = None\<rparr>\<rparr>)
                | (files, None) \<Rightarrow>
                    Reader_Read p \<lparr>Files = files, Reader = Some files\<rparr> k))
      | Some rs \<Rightarrow> Reader_Read p rs k)"

text \<open>
  The loop of \<^verbatim>\<open>Close\<close>, carrying \<^verbatim>\<open>err\<close>. The source skips nil entries of \<^verbatim>\<open>Files\<close>;
  \<^verbatim>\<open>Read\<close> only appends files that \<^verbatim>\<open>os.Open\<close> returned, so there are none. The second
  component lists the files \<^verbatim>\<open>Close\<close> was called on, in order.
\<close>

fun close_files :: "File list \<Rightarrow> error option \<Rightarrow> File list \<Rightarrow> error option \<times> File list" where
  "close_files [] err closed = (err, closed)"
| "close_files (reader # rest) err closed =
     (let tmpErr = close_err reader in
      close_files rest (if tmpErr \<noteq> None \<and> err \<noteq> None then tmpErr else err)
        (closed @ [reader]))"

text \<open>\<^verbatim>\<open>Close\<close>: the error returned, the session afterwards and the files closed.\<close>

definition Close :: "Parts \<Rightarrow> error option \<times> Parts \<times> File list" where
  "Close p =
     (case readState p of
        None \<Rightarrow> (None, p, [])
      | Some rs \<Rightarrow>
          (case close_files (Files rs) None [] of (err, closed) \<Rightarrow>
             (err, p\<lparr>readState := None\<rparr>, closed)))"

text \<open>
  A caller's loop around \<^verbatim>\<open>Read\<close> with a buffer of \<open>k\<close> bytes, as in the package's
  tests and in \<^verbatim>\<open>ioutil.ReadAll\<close>: the bytes are collected until a call returns an error.
  With an empty buffer no call ever does, so the loop carries fuel: \<open>None\<close> is "still
  reading".
\<close>

fun read_until_error ::
  "nat \<Rightarrow> filesys \<Rightarrow> Parts \<Rightarrow> nat \<Rightarrow> byte list \<Rightarrow> (byte list \<times> error \<times> Parts) outcome option" where
  "read_until_error 0 fs p k acc = None"
| "read_until_error (Suc fuel) fs p k acc =
     (case Read fs p k of
        Panics x \<Rightarrow> Some (Panics x)
      | Returns (bs, None, p') \<Rightarrow> read_until_error fuel fs p' k (acc @ bs)
      | Returns (bs, Some err, p') \<Rightarrow> Some (Returns (acc @ bs, err, p')))"

section \<open>Notions used in the statements\<close>

text \<open>
  A name as a directory listing gives it: not empty, without a separator, and neither
  \<^verbatim>\<open>"."\<close> nor \<^verbatim>\<open>".."\<close>. Every file system lists such names only; the statements
  about base names assume it of the directories among the session's paths.
\<close>

definition valid_name :: "string \<Rightarrow> bool" where
  "valid_name f = (f \<noteq> [] \<and> Separator \<notin> set f \<and> f \<noteq> ''.'' \<and> f \<noteq> ''..'')"

definition path_names_valid :: "filesys \<Rightarrow> string \<Rightarrow> bool" where
  "path_names_valid fs path =
     (case StatMode fs path of
        Inl err \<Rightarrow> True
      | Inr mode \<Rightarrow>
          if IsDir mode then
            (case os_Open fs path of
               Inl err \<Rightarrow> True
             | Inr dir \<Rightarrow>
                 (case dirents dir of
                    Inl err \<Rightarrow> True
                  | Inr fileNames \<Rightarrow> list_all valid_name fileNames))
          else True)"

definition dir_names_valid :: "filesys \<Rightarrow> string list \<Rightarrow> bool" where
  "dir_names_valid fs paths = list_all (path_names_valid fs) paths"

text \<open>
  A candidate is an entry \<^verbatim>\<open>Readdirnames\<close> meets: the name it is recorded under, its
  full path, its mode, and whether it was read from a directory (then the name pattern
  applies) or given as a path itself. \<open>candidates\<close> lists them in the order of the
  two loops, and fails where the loops fail.
\<close>

record candidate =
  cand_name :: string
  cand_path :: string
  cand_mode :: FileMode
  cand_in_dir :: bool

fun dir_candidates :: "filesys \<Rightarrow> string \<Rightarrow> string list \<Rightarrow> error + candidate list" where
  "dir_candidates fs path [] = Inr []"
| "dir_candidates fs path (fileName # rest) =
     (case StatMode fs (filepath_Join path fileName) of
        Inl err \<Rightarrow> Inl (Errorf_parts err)
      | Inr mode \<Rightarrow>
          (case dir_candidates fs path rest of
             Inl err \<Rightarrow> Inl err
           | Inr cs \<Rightarrow>
               Inr (\<lparr>cand_name = fileName, cand_path = filepath_Join path fileName,
                     cand_mode = mode, cand_in_dir = True\<rparr> # cs)))"

fun candidates :: "filesys \<Rightarrow> string list \<Rightarrow> error + candidate list" where
  "candidates fs [] = Inr []"
| "candidates fs (path # rest) =
     (case StatMode fs path of
        Inl err \<Rightarrow> Inl (Errorf_parts err)
      | Inr mode \<Rightarrow>
          if IsDir mode then
            (case os_Open fs path of
               Inl err \<Rightarrow> Inl (Errorf_parts err)
             | Inr dir \<Rightarrow>
                 (case dirents dir of
                    Inl err \<Rightarrow> Inl (Errorf_parts err)
                  | Inr fileNames \<Rightarrow>
                      (case dir_candidates fs path fileNames of
                         Inl err \<Rightarrow> Inl err
                       | Inr cs \<Rightarrow>
                           (case candidates fs rest of
                              Inl err \<Rightarrow> Inl err
                            | Inr cs' \<Rightarrow> Inr (cs @ cs')))))
          else
            (case candidates fs rest of
               Inl err \<Rightarrow> Inl err
             | Inr cs' \<Rightarrow>
                 Inr (\<lparr>cand_name = filepath_Base path, cand_path = path,
                       cand_mode = mode, cand_in_dir = False\<rparr> # cs')))"

text \<open>
  What the loops do with one candidate: nothing when its name is bound already, else
  bind it to its path when the filter accepts it.
\<close>

definition passes :: "Config \<Rightarrow> candidate \<Rightarrow> bool" where
  "passes cfg c =
     filter_parts cfg (cand_name c) (cand_mode c)
       (if cand_in_dir c then RegExpFilter cfg else None)"

definition record_entry :: "Config \<Rightarrow> foundNames \<Rightarrow> candidate \<Rightarrow> foundNames" where
  "record_entry cfg found c =
     (if map_of found (cand_name c) \<noteq> None then found
      else if passes cfg c then AList.update (cand_name c) (cand_path c) found
      else found)"

definition binding :: "candidate \<Rightarrow> string \<times> string" where
  "binding c = (cand_name c, cand_path c)"

text \<open>
  The bytes of a file as \<^verbatim>\<open>os.Open\<close> gives it, whether it opens and reads to its end
  without an error, and the bytes a list of readers still holds.
\<close>

definition file_contents :: "filesys \<Rightarrow> string \<Rightarrow> byte list" where
  "file_contents fs name = (case os_Open fs name of Inl err \<Rightarrow> [] | Inr f \<Rightarrow> unread f)"

definition reads_cleanly :: "filesys \<Rightarrow> string \<Rightarrow> bool" where
  "reads_cleanly fs name =
     (case os_Open fs name of Inl err \<Rightarrow> False | Inr f \<Rightarrow> read_err f = None)"

definition stream :: "File list \<Rightarrow> byte list" where
  "stream readers = concat (map unread readers)"

definition no_read_errors :: "File list \<Rightarrow> bool" where
  "no_read_errors readers = list_all (\<lambda>f. read_err f = None) readers"

section \<open>An example session\<close>

text \<open>
  Two directories that both hold \<^verbatim>\<open>10-both\<close>, and a file given by its path; all
  regular files have mode \<^verbatim>\<open>0644\<close> (420), the directories \<^verbatim>\<open>0755\<close> (493).
\<close>

definition ex_regular :: "byte list \<Rightarrow> File" where
  "ex_regular bs =
     \<lparr>unread = bs, read_err = None, dirents = Inl (SysError ''ENOTDIR''), close_err = None\<rparr>"

definition ex_directory :: "string list \<Rightarrow> File" where
  "ex_directory fileNames =
     \<lparr>unread = [], read_err = Some (SysError ''EISDIR''), dirents = Inr fileNames,
      close_err = None\<rparr>"

definition ex_stat :: "string \<Rightarrow> error + FileMode" where
  "ex_stat name =
     (if name = ''etc'' \<or> name = ''lib'' then Inr (ModeDir OR 493)
      else if name = ''etc/10-both'' \<or> name = ''lib/10-both'' \<or> name = ''etc/20-etc''
              \<or> name = ''lib/30-lib'' \<or> name = ''t.conf'' then Inr 420
      else Inl (SysError ''ENOENT''))"

definition ex_open :: "string \<Rightarrow> error + File" where
  "ex_open name =
     (if name = ''etc'' then Inr (ex_directory [''20-etc'', ''10-both''])
      else if name = ''lib'' then Inr (ex_directory [''30-lib'', ''10-both''])
      else if name = ''etc/10-both'' then Inr (ex_regular [1, 2, 3])
      else if name = ''lib/10-both'' then Inr (ex_regular [4])
      else if name = ''etc/20-etc'' then Inr (ex_regular [5, 6])
      else if name = ''lib/30-lib'' then Inr (ex_regular [])
      else if name = ''t.conf'' then Inr (ex_regular [7, 8, 9, 10])
      else Inl (SysError ''ENOENT''))"

definition ex_fs :: filesys where
  "ex_fs = \<lparr>os_Stat = ex_stat, os_Lstat = ex_stat, os_Open = ex_open\<rparr>"

definition ex_paths :: "string list" where
  "ex_paths = [''t.conf'', ''etc'', ''lib'']"

definition ex_p :: Parts where
  "ex_p = NewParts ex_paths None"

definition ex_names :: "string list" where
  "ex_names = [''etc/10-both'', ''etc/20-etc'', ''lib/30-lib'', ''t.conf'']"

text \<open>
  The same file system with one file that cannot be opened, the session a failed first
  \<^verbatim>\<open>Read\<close> leaves there, and a session whose second file fails to close.
\<close>

definition ex_locked_fs :: filesys where
  "ex_locked_fs = ex_fs\<lparr>os_Open := (os_Open ex_fs)(''etc/20-etc'' := Inl (SysError ''EACCES''))\<rparr>"

definition ex_half_built :: Parts where
  "ex_half_built = ex_p\<lparr>readState := Some \<lparr>Files = [ex_regular [1, 2, 3]], Reader = None\<rparr>\<rparr>"

definition ex_stuck :: File where
  "ex_stuck = (ex_regular [4])\<lparr>close_err := Some (SysError ''EIO'')\<rparr>"

definition ex_reading :: Parts where
  "ex_reading =
     ex_p\<lparr>readState := Some \<lparr>Files = [ex_regular [1, 2, 3], ex_stuck],
                                Reader = Some [ex_regular [1, 2, 3], ex_stuck]\<rparr>\<rparr>"

text \<open>
  The candidates of the example in the order the loops meet them: \<^verbatim>\<open>etc/10-both\<close>
  comes before \<^verbatim>\<open>lib/10-both\<close>. The last configuration has a pattern that matches
  no name.
\<close>

definition ex_winner :: candidate where
  "ex_winner =
     \<lparr>cand_name = ''10-both'', cand_path = ''etc/10-both'', cand_mode = 420 OR ModeRegular,
      cand_in_dir = True\<rparr>"



definition ex_nothing_matches :: Config where
  "ex_nothing_matches = NewDefaultConfig\<lparr>RegExpFilter := Some (\<lambda>name. False)\<rparr>"

section \<open>Base names and string order\<close>

text \<open>
  \<^verbatim>\<open>strings.Compare\<close> is the lexicographic order on byte strings, and the base name
  of a valid name joined to any directory is that name.
\<close>

lemma strings_Compare_less: "strings_Compare a b < 0 \<longleftrightarrow> a < b"
  by (induction a b rule: strings_Compare.induct) (auto simp: less_char_def)

lemma Less_iff: "Less a b \<longleftrightarrow> filepath_Base a < filepath_Base b"
  by (simp add: Less_def strings_Compare_less)

lemma Reverse_Less_iff: "Reverse_Less a b \<longleftrightarrow> filepath_Base b < filepath_Base a"
  by (simp add: Reverse_Less_def Less_iff)

lemma split_path_no_sep: "Separator \<notin> set f \<Longrightarrow> split_path f = [f]"
  by (induction f) auto

lemma split_path_append:
  "Separator \<notin> set f \<Longrightarrow> split_path (xs @ Separator # f) = split_path xs @ [f]"
proof (induction xs)
  case Nil
  then show ?case by (simp add: split_path_no_sep)
next
  case (Cons c xs)
  have ne: "split_path xs \<noteq> []" by (cases xs) auto
  from Cons ne show ?case by (cases "split_path xs") auto
qed

lemma clean_step_valid: "valid_name f \<Longrightarrow> clean_step r st f = f # st"
  by (auto simp: clean_step_def valid_name_def)

lemma join_elems_snoc:
  "join_elems (es @ [f]) = (if es = [] then f else join_elems es @ Separator # f)"
  by (induction es rule: join_elems.induct) auto

lemma Base_suffix:
  assumes "f \<noteq> []" "Separator \<notin> set f" "pre = [] \<or> last pre = Separator"
  shows "filepath_Base (pre @ f) = f"
proof -
  have hd: "hd (rev f) \<noteq> Separator"
    using assms(1,2) by (metis hd_rev last_in_set)
  have d: "dropWhile (\<lambda>c. c = Separator) (rev f @ rev pre) = rev f @ rev pre"
    using assms(1) hd by (cases "rev f") auto
  have t: "takeWhile (\<lambda>c. c \<noteq> Separator) (rev f @ rev pre) = rev f"
  proof (cases "pre = []")
    case True
    then show ?thesis using assms(2) by (auto simp: takeWhile_eq_all_conv)
  next
    case False
    then have "hd (rev pre) = Separator" using assms(3) by (simp add: hd_rev)
    with False have "takeWhile (\<lambda>c. c \<noteq> Separator) (rev pre) = []"
      by (cases "rev pre") auto
    then show ?thesis using assms(2) by (subst takeWhile_append2) auto
  qed
  show ?thesis using assms(1) by (simp add: filepath_Base_def d t Let_def)
qed

lemma Base_Clean_append:
  assumes "valid_name f"
  shows "filepath_Base (filepath_Clean (xs @ Separator # f)) = f"
proof -
  define rooted where "rooted = (xs @ Separator # f \<noteq> [] \<and> hd (xs @ Separator # f) = Separator)"
  define st where "st = foldl (clean_step rooted) [] (split_path xs)"
  have sp: "split_path (xs @ Separator # f) = split_path xs @ [f]"
    using assms by (simp add: split_path_append valid_name_def)
  have body: "join_elems (rev (foldl (clean_step rooted) [] (split_path (xs @ Separator # f))))
      = (if st = [] then f else join_elems (rev st) @ Separator # f)"
    using assms by (simp add: sp clean_step_valid st_def join_elems_snoc)
  have f: "f \<noteq> []" "Separator \<notin> set f" using assms by (auto simp: valid_name_def)
  have A: "filepath_Base (Separator # f) = f"
    using Base_suffix[of f "[Separator]"] f by simp
  have B: "filepath_Base (Separator # join_elems (rev st) @ Separator # f) = f"
    using Base_suffix[of f "Separator # join_elems (rev st) @ [Separator]"] f by simp
  have C: "filepath_Base (join_elems (rev st) @ Separator # f) = f"
    using Base_suffix[of f "join_elems (rev st) @ [Separator]"] f by simp
  have D: "filepath_Base f = f"
    using Base_suffix[of f "[]"] f by simp
  show ?thesis
    unfolding filepath_Clean_def Let_def rooted_def[symmetric] body
    using A B C D f by (auto)
qed

lemma Base_Clean_valid:
  assumes "valid_name f"
  shows "filepath_Clean f = f"
proof -
  have f: "f \<noteq> []" "Separator \<notin> set f" using assms by (auto simp: valid_name_def)
  then have "hd f \<noteq> Separator" by (cases f) auto
  then show ?thesis
    using assms f by (simp add: filepath_Clean_def split_path_no_sep clean_step_valid)
qed

lemma Base_Join: "valid_name f \<Longrightarrow> filepath_Base (filepath_Join dir f) = f"
  using Base_suffix[of f "[]"]
  by (auto simp: filepath_Join_def Base_Clean_append Base_Clean_valid valid_name_def)

section \<open>Sorting\<close>

text \<open>
  The sorted list is a permutation, ordered by base name; when the base names are
  distinct it is the only such permutation, whatever the order of the input.
\<close>

lemma mset_sort_insert: "mset (sort_insert lt x xs) = add_mset x (mset xs)"
  by (induction xs) auto

lemma mset_sort_Sort: "mset (sort_Sort lt xs) = mset xs"
  by (induction xs) (auto simp: mset_sort_insert)


lemma length_sort_Sort: "length (sort_Sort lt xs) = length xs"
  by (metis mset_sort_Sort size_mset)

lemma set_sort_insert: "set (sort_insert lt x xs) = insert x (set xs)"
  by (metis mset_sort_insert set_mset_mset set_mset_add_mset_insert)

lemma sorted_sort_insert_Less:
  "sorted (map filepath_Base xs) \<Longrightarrow> sorted (map filepath_Base (sort_insert Less x xs))"
  by (induction xs) (auto simp: set_sort_insert Less_iff)

lemma sorted_sort_Sort_Less: "sorted (map filepath_Base (sort_Sort Less xs))"
  by (induction xs) (auto simp: sorted_sort_insert_Less)

lemma sorted_sort_insert_Reverse:
  "sorted (rev (map filepath_Base xs)) \<Longrightarrow>
   sorted (rev (map filepath_Base (sort_insert Reverse_Less x xs)))"
  by (induction xs) (auto simp: set_sort_insert Reverse_Less_iff sorted_append)

lemma sorted_sort_Sort_Reverse: "sorted (rev (map filepath_Base (sort_Sort Reverse_Less xs)))"
  by (induction xs) (auto simp: sorted_sort_insert_Reverse)

lemma sorted_by_Base_unique:
  assumes "sorted (map filepath_Base xs)" "sorted (map filepath_Base ys)"
    and "distinct (map filepath_Base xs)" "mset ys = mset xs"
  shows "ys = xs"
proof -
  have m: "mset (map filepath_Base ys) = mset (map filepath_Base xs)"
    using assms(4) by simp
  then have d: "distinct (map filepath_Base ys)"
    using assms(3) by (metis mset_eq_imp_distinct_iff)
  have s: "set (map filepath_Base ys) = set (map filepath_Base xs)"
    using m by (metis set_mset_mset)
  have e: "map filepath_Base ys = map filepath_Base xs"
    using assms(1,2,3) d s by (metis sorted_distinct_set_unique)
  have "set ys = set xs" using assms(4) by (metis set_mset_mset)
  moreover have "inj_on filepath_Base (set xs)"
    using assms(3) by (simp add: distinct_map)
  ultimately show ?thesis using e by (simp add: inj_on_map_eq_map)
qed

lemma sort_Sort_unique:
  assumes "distinct (map filepath_Base xs)" "mset ys = mset xs"
  shows "sort_Sort Less ys = sort_Sort Less xs"
proof (rule sorted_by_Base_unique)
  show "distinct (map filepath_Base (sort_Sort Less xs))"
    using assms(1) by (metis mset_sort_Sort mset_map mset_eq_imp_distinct_iff)
qed (simp_all add: sorted_sort_Sort_Less mset_sort_Sort assms)

lemma sort_Sort_Reverse:
  assumes "distinct (map filepath_Base xs)"
  shows "sort_Sort Reverse_Less xs = rev (sort_Sort Less xs)"
proof -
  have "rev (sort_Sort Reverse_Less xs) = sort_Sort Less xs"
  proof (rule sorted_by_Base_unique)
    show "distinct (map filepath_Base (sort_Sort Less xs))"
      using assms(1) by (metis mset_sort_Sort mset_map mset_eq_imp_distinct_iff)
    show "sorted (map filepath_Base (rev (sort_Sort Reverse_Less xs)))"
      using sorted_sort_Sort_Reverse[of xs] by (simp add: rev_map)
  qed (simp_all add: sorted_sort_Sort_Less mset_sort_Sort)
  then show ?thesis by (metis rev_rev_ident)
qed

lemma strict_sort_Sort_Less:
  assumes "distinct (map filepath_Base xs)"
  shows "sorted_wrt (\<lambda>a b. strings_Compare (filepath_Base a) (filepath_Base b) < 0)
           (sort_Sort Less xs)"
proof -
  have "distinct (map filepath_Base (sort_Sort Less xs))"
    using assms(1) by (metis mset_sort_Sort mset_map mset_eq_imp_distinct_iff)
  then have "sorted_wrt (<) (map filepath_Base (sort_Sort Less xs))"
    using sorted_sort_Sort_Less[of xs] by (simp add: strict_sorted_iff)
  then show ?thesis by (simp add: sorted_wrt_map strings_Compare_less)
qed

section \<open>The scan as a fold over the candidates\<close>

lemma scan_dir_fold:
  "scan_dir fs cfg path names found =
     (case dir_candidates fs path names of
        Inl err \<Rightarrow> Inl err
      | Inr cs \<Rightarrow> Inr (foldl (record_entry cfg) found cs))"
  by (induction names arbitrary: found)
     (auto simp: Let_def record_entry_def passes_def split: sum.splits)

lemma scan_paths_fold:
  "scan_paths fs cfg ps found =
     (case candidates fs ps of
        Inl err \<Rightarrow> Inl err
      | Inr cs \<Rightarrow> Inr (foldl (record_entry cfg) found cs))"
  by (induction ps arbitrary: found)
     (auto simp: scan_dir_fold record_entry_def passes_def split: sum.splits)

lemma map_of_record_entries:
  "map_of (foldl (record_entry cfg) found cs) k =
     (case map_of found k of
        Some v \<Rightarrow> Some v
      | None \<Rightarrow> map_of (map binding (filter (passes cfg) cs)) k)"
  by (induction cs arbitrary: found)
     (auto simp: record_entry_def binding_def update_conv' split: option.splits)

lemma distinct_record_entries:
  "distinct (map fst found) \<Longrightarrow> distinct (map fst (foldl (record_entry cfg) found cs))"
  by (induction cs arbitrary: found) (auto simp: record_entry_def distinct_update)

lemma dir_candidates_Base:
  "dir_candidates fs path names = Inr cs \<Longrightarrow> list_all valid_name names \<Longrightarrow>
   c \<in> set cs \<Longrightarrow> filepath_Base (cand_path c) = cand_name c"
  by (induction names arbitrary: cs) (auto simp: Base_Join split: sum.splits)

lemma candidates_Base:
  "candidates fs ps = Inr cs \<Longrightarrow> dir_names_valid fs ps \<Longrightarrow>
   c \<in> set cs \<Longrightarrow> filepath_Base (cand_path c) = cand_name c"
  by (induction ps arbitrary: cs)
     (auto simp: dir_names_valid_def path_names_valid_def dir_candidates_Base
           split: sum.splits if_splits)





lemma candidates_append:
  "candidates fs (ps @ qs) =
     (case candidates fs ps of
        Inl err \<Rightarrow> Inl err
      | Inr cs \<Rightarrow> (case candidates fs qs of Inl err \<Rightarrow> Inl err | Inr cs' \<Rightarrow> Inr (cs @ cs')))"
  by (induction ps) (auto split: sum.splits)

section \<open>The names found\<close>


lemma found_bindings:
  assumes "scan_paths fs cfg ps [] = Inr found" "candidates fs ps = Inr cs"
  shows "distinct (map fst found)"
    and "map_of found k = map_of (map binding (filter (passes cfg) cs)) k"
  using assms distinct_record_entries[of "[]" cfg cs] map_of_record_entries[of cfg "[]" cs k]
  by (simp_all add: scan_paths_fold)

lemma scan_paths_candidates:
  "scan_paths fs cfg ps found = Inr found' \<Longrightarrow> \<exists>cs. candidates fs ps = Inr cs"
  by (simp add: scan_paths_fold split: sum.splits)

lemma found_entry_candidate:
  assumes "scan_paths fs cfg ps [] = Inr found" "candidates fs ps = Inr cs"
    and "(k, v) \<in> set found"
  shows "\<exists>c\<in>set cs. cand_name c = k \<and> cand_path c = v \<and> passes cfg c"
proof -
  have "map_of found k = Some v"
    using assms(3) found_bindings(1)[OF assms(1,2)] by simp
  then have "map_of (map binding (filter (passes cfg) cs)) k = Some v"
    using found_bindings(2)[OF assms(1,2)] by simp
  then have "(k, v) \<in> set (map binding (filter (passes cfg) cs))"
    by (rule map_of_SomeD)
  then show ?thesis by (auto simp: binding_def)
qed

lemma found_entry_Base:
  assumes "scan_paths fs cfg ps [] = Inr found" "dir_names_valid fs ps"
    and "(k, v) \<in> set found"
  shows "filepath_Base v = k"
proof -
  obtain cs where cs: "candidates fs ps = Inr cs"
    using scan_paths_candidates[OF assms(1)] by blast
  obtain c where "c \<in> set cs" "cand_name c = k" "cand_path c = v"
    using found_entry_candidate[OF assms(1) cs assms(3)] by blast
  then show ?thesis using candidates_Base[OF cs assms(2)] by metis
qed

lemma found_Base:
  assumes "scan_paths fs cfg ps [] = Inr found" "dir_names_valid fs ps"
  shows "map filepath_Base (map snd found) = map fst found"
proof -
  have "filepath_Base (snd kv) = fst kv" if "kv \<in> set found" for kv
    using found_entry_Base[OF assms, of "fst kv" "snd kv"] that by simp
  then show ?thesis by simp
qed

lemma found_distinct_Base:
  assumes "scan_paths fs cfg ps [] = Inr found" "dir_names_valid fs ps"
  shows "distinct (map filepath_Base (map snd found))"
proof -
  obtain cs where cs: "candidates fs ps = Inr cs"
    using scan_paths_candidates[OF assms(1)] by blast
  show ?thesis
    unfolding found_Base[OF assms] by (rule found_bindings(1)[OF assms(1) cs])
qed

lemma map_of_only_binding:
  "(k, v) \<in> set al \<Longrightarrow> \<forall>b\<in>set al. fst b = k \<longrightarrow> b = (k, v) \<Longrightarrow> map_of al k = Some v"
  by (induction al) auto


lemma limit_names_take:
  "limit_names n xs = Returns (names, err) \<Longrightarrow> err = None \<and> (\<exists>m. names = take m xs)"
  by (auto simp: limit_names_def split: if_splits intro: exI[of _ "length xs"])

lemma Readdirnames_success:
  assumes "Readdirnames fs p n = Returns (names, None)"
  obtains found where "scan_paths fs (Config p) (Paths p) [] = Inr found"
    and "limit_names n (sort_Sort (if Reverse (Config p) then Reverse_Less else Less)
           (map snd found)) = Returns (names, None)"
  using assms by (auto simp: Readdirnames_def split: sum.splits)

lemma Readdirnames_0:
  "scan_paths fs (Config p) (Paths p) [] = Inr found \<Longrightarrow>
   Readdirnames fs p 0 =
     Returns (sort_Sort (if Reverse (Config p) then Reverse_Less else Less) (map snd found), None)"
  by (simp add: Readdirnames_def limit_names_def)

lemma distinct_Base_sort:
  "distinct (map filepath_Base xs) \<Longrightarrow> distinct (map filepath_Base (sort_Sort lt xs))"
  by (metis mset_sort_Sort mset_map mset_eq_imp_distinct_iff)



lemma sorted_wrt_take: "sorted_wrt R xs \<Longrightarrow> sorted_wrt R (take m xs)"
  by (metis append_take_drop_id sorted_wrt_append)

lemma strict_sort_Sort_Reverse:
  assumes "distinct (map filepath_Base xs)"
  shows "sorted_wrt (\<lambda>a b. strings_Compare (filepath_Base b) (filepath_Base a) < 0)
           (sort_Sort Reverse_Less xs)"
proof -
  have "sorted_wrt (\<lambda>a b. strings_Compare (filepath_Base a) (filepath_Base b) < 0)
          (rev (sort_Sort Reverse_Less xs))"
    using strict_sort_Sort_Less[OF assms] by (simp add: sort_Sort_Reverse[OF assms])
  then show ?thesis by (simp add: sorted_wrt_rev)
qed

section \<open>Reading the stream\<close>

lemma multiReader_Read_stream:
  assumes "0 < k" "no_read_errors readers" "multiReader_Read readers k = (bs, err, readers')"
  shows "no_read_errors readers' \<and> bs @ stream readers' = stream readers \<and>
         (err = None \<and> bs \<noteq> [] \<or> err = Some EOF \<and> bs = [] \<and> stream readers = [])"
  using assms
proof (induction readers)
  case Nil
  then show ?case by (simp add: stream_def no_read_errors_def)
next
  case (Cons r rs)
  show ?case
  proof (cases "unread r = []")
    case True
    then have "multiReader_Read (r # rs) k = multiReader_Read rs k"
      using Cons.prems(1,2) by (simp add: file_Read_def no_read_errors_def)
    then have "multiReader_Read rs k = (bs, err, readers')" using Cons.prems(3) by simp
    moreover have "no_read_errors rs" using Cons.prems(2) by (simp add: no_read_errors_def)
    ultimately show ?thesis using Cons.IH[OF Cons.prems(1)] True by (simp add: stream_def)
  next
    case False
    then have "multiReader_Read (r # rs) k
        = (take k (unread r), None, r\<lparr>unread := drop k (unread r)\<rparr> # rs)"
      using Cons.prems(1) by (simp add: file_Read_def)
    then show ?thesis
      using Cons.prems False by (auto simp: stream_def no_read_errors_def)
  qed
qed

lemma read_until_error_stream:
  assumes "0 < k"
  shows "readState p = Some rs \<Longrightarrow> Reader rs = Some readers \<Longrightarrow> no_read_errors readers \<Longrightarrow>
         length (stream readers) < fuel \<Longrightarrow>
         \<exists>p'. read_until_error fuel fs p k acc = Some (Returns (acc @ stream readers, EOF, p'))"
proof (induction fuel arbitrary: p rs readers acc)
  case 0
  then show ?case by simp
next
  case (Suc fuel)
  obtain bs err readers' where mr: "multiReader_Read readers k = (bs, err, readers')"
    by (metis prod_cases3)
  let ?p' = "p\<lparr>readState := Some (rs\<lparr>Reader := Some readers'\<rparr>)\<rparr>"
  have rd: "Read fs p k = Returns (bs, err, ?p')"
    using Suc.prems(1,2) mr by (simp add: Read_def Reader_Read_def)
  have st: "no_read_errors readers'" "bs @ stream readers' = stream readers"
    "err = None \<and> bs \<noteq> [] \<or> err = Some EOF \<and> bs = [] \<and> stream readers = []"
    using multiReader_Read_stream[OF assms Suc.prems(3) mr] by auto
  show ?case
  proof (cases err)
    case None
    then have "bs \<noteq> []" using st(3) by auto
    then have "0 < length bs" by simp
    moreover have "length (stream readers) = length bs + length (stream readers')"
      using st(2) by (metis length_append)
    ultimately have "length (stream readers') < fuel"
      using Suc.prems(4) by linarith
    then obtain p'' where
      "read_until_error fuel fs ?p' k (acc @ bs) = Some (Returns ((acc @ bs) @ stream readers', EOF, p''))"
      using Suc.IH[of ?p' "rs\<lparr>Reader := Some readers'\<rparr>" readers' "acc @ bs"] st(1) by auto
    moreover have "(acc @ bs) @ stream readers' = acc @ stream readers"
      using st(2) by (metis append_assoc)
    ultimately show ?thesis using rd None by simp
  next
    case (Some e)
    then show ?thesis using rd st(3) by auto
  qed
qed

lemma open_files_all:
  "list_all (reads_cleanly fs) names \<Longrightarrow>
   \<exists>files. open_files fs names acc = (acc @ files, None) \<and> no_read_errors files \<and>
           stream files = concat (map (file_contents fs) names)"
proof (induction names arbitrary: acc)
  case Nil
  then show ?case by (simp add: no_read_errors_def stream_def)
next
  case (Cons name names)
  then obtain f where f: "os_Open fs name = Inr f" "read_err f = None"
    by (auto simp: reads_cleanly_def split: sum.splits)
  obtain files where files: "open_files fs names (acc @ [f]) = ((acc @ [f]) @ files, None)"
    "no_read_errors files" "stream files = concat (map (file_contents fs) names)"
    using Cons.IH[of "acc @ [f]"] Cons.prems by auto
  have "file_contents fs name = unread f" using f(1) by (simp add: file_contents_def)
  then show ?case
    using f files
    by (intro exI[of _ "f # files"]) (simp add: no_read_errors_def stream_def)
qed

section \<open>Close, modes and a failed first Read\<close>

lemma close_files_result:
  "close_files files None closed = (None, closed @ files)"
  by (induction files arbitrary: closed) simp_all

lemma Close_returns_no_error: "fst (Close p) = None"
  by (simp add: Close_def close_files_result split: option.splits)

lemma Close_resets: "readState (fst (snd (Close p))) = None"
  by (simp add: Close_def close_files_result split: option.splits)

lemma Close_closes_all:
  "readState p = Some rs \<Longrightarrow> snd (snd (Close p)) = Files rs"
  by (simp add: Close_def close_files_result)

lemma ModeRegular_not_Perm: "ModeRegular AND ModePerm = 0"
  by (simp add: ModeRegular_def ModePerm_def)

lemma Perm_OR_ModeRegular: "Perm (m OR ModeRegular) = Perm m"
  by (simp add: Perm_def bit.conj_disj_distrib2 ModeRegular_not_Perm)

lemma StatMode_keeps_Perm:
  "os_Stat fs name = Inr m \<Longrightarrow> StatMode fs name = Inr mode \<Longrightarrow> Perm mode = Perm m"
  by (auto simp: StatMode_def Perm_OR_ModeRegular split: if_splits)

lemma FileInfo_Mode_Perm:
  "m AND os_ModeType = 0 \<Longrightarrow> Perm (FileInfo_Mode m) = 0"
  by (simp add: FileInfo_Mode_def Perm_def ModeRegular_not_Perm)

lemma Read_resolution_error:
  "readState p = None \<Longrightarrow> Readdirnames fs p 0 = Returns (names, Some err) \<Longrightarrow>
   Read fs p k = Returns ([], Some err, p)"
  by (simp add: Read_def)

lemma Read_open_error:
  assumes "readState p = None" "Readdirnames fs p 0 = Returns (names, None)"
    and "open_files fs names [] = (files, Some err)"
  shows "Read fs p k
           = Returns ([], Some err, p\<lparr>readState := Some \<lparr>Files = files, Reader = None\<rparr>\<rparr>)"
    and "Read fs (p\<lparr>readState := Some \<lparr>Files = files, Reader = None\<rparr>\<rparr>) k
           = Panics NilDereference"
  using assms by (simp_all add: Read_def Reader_Read_def)

section \<open>The example\<close>

lemma ex_valid: "dir_names_valid ex_fs ex_paths"
  by code_simp

lemma ex_resolved: "Readdirnames ex_fs ex_p 0 = Returns (ex_names, None)"
  by code_simp

lemma ex_Paths: "Paths ex_p = ex_paths"
  by (simp add: ex_p_def NewParts_def)

lemma ex_Reverse: "Reverse (Config ex_p) = False"
  by (simp add: ex_p_def NewParts_def NewDefaultConfig_def)

lemma directory_entry_also_given_directly:
  "candidates ex_fs [''etc'', ''etc/20-etc'']
     = Inr [\<lparr>cand_name = ''20-etc'', cand_path = ''etc/20-etc'', cand_mode = 420 OR ModeRegular,
              cand_in_dir = True\<rparr>,
            ex_winner,
            \<lparr>cand_name = ''20-etc'', cand_path = ''etc/20-etc'', cand_mode = 420 OR ModeRegular,
              cand_in_dir = False\<rparr>] \<and>
   \<not> filter_parts ex_nothing_matches ''20-etc'' (420 OR ModeRegular)
       (RegExpFilter ex_nothing_matches) \<and>
   filter_parts ex_nothing_matches ''20-etc'' (420 OR ModeRegular) None \<and>
   Readdirnames ex_fs
       \<lparr>Paths = [''etc'', ''etc/20-etc''], Config = ex_nothing_matches, readState = None\<rparr> 0
     = Returns ([''etc/20-etc''], None)"
  by code_simp

section \<open>The properties\<close>

text \<open>
  C8: whatever the configuration and the paths, when \<^verbatim>\<open>Readdirnames\<close> succeeds no two of
  the full paths it returns have the same base name. The directories among the paths list
  valid names, as every file system does.
\<close>

theorem resolved_base_names_distinct:
  assumes "Readdirnames fs p n = Returns (names, None)"
    and "dir_names_valid fs (Paths p)"
  shows "distinct (map filepath_Base names)"
proof -
  obtain found where sc: "scan_paths fs (Config p) (Paths p) [] = Inr found"
    and lim: "limit_names n (sort_Sort (if Reverse (Config p) then Reverse_Less else Less)
           (map snd found)) = Returns (names, None)"
    using assms(1) by (rule Readdirnames_success)
  let ?sorted = "sort_Sort (if Reverse (Config p) then Reverse_Less else Less) (map snd found)"
  have "distinct (map filepath_Base ?sorted)"
    using found_distinct_Base[OF sc assms(2)] by (rule distinct_Base_sort)
  moreover obtain m where "names = take m ?sorted"
    using limit_names_take[OF lim] by blast
  ultimately show ?thesis by (simp add: take_map[symmetric] del: take_map)
qed

text \<open>
  The statement at the example session.
\<close>

theorem resolved_base_names_distinct_witness:
  "Readdirnames ex_fs ex_p 0 = Returns (ex_names, None) \<and> dir_names_valid ex_fs (Paths ex_p) \<and>
   distinct (map filepath_Base ex_names)"
proof -
  have v: "dir_names_valid ex_fs (Paths ex_p)" using ex_valid by (simp add: ex_Paths)
  show ?thesis
    using resolved_base_names_distinct[OF ex_resolved v] ex_resolved v by simp
qed






text \<open>
  C5, as amended: the names returned are strictly ordered by base name under
  \<^verbatim>\<open>strings.Compare\<close>, ascending when \<^verbatim>\<open>Reverse\<close> is unset and descending when it is
  set, for every limit. When the limit does not cut (it is 0, or at least the number of
  names found), resolving with \<^verbatim>\<open>Reverse\<close> set gives exactly the reverse of the list
  resolved with it unset. When it cuts (\<open>0 < n\<close> below that number), each result is the
  first \<open>n\<close> names of its own order: with \<^verbatim>\<open>Reverse\<close> set, the first \<open>n\<close> of the
  reversed full list.
\<close>

theorem sorted_by_base_name_and_reverse:
  assumes "dir_names_valid fs (Paths p)"
    and "Readdirnames fs p n = Returns (names, None)"
  shows "(if Reverse (Config p)
          then sorted_wrt (\<lambda>a b. strings_Compare (filepath_Base b) (filepath_Base a) < 0) names
          else sorted_wrt (\<lambda>a b. strings_Compare (filepath_Base a) (filepath_Base b) < 0) names) \<and>
         (\<exists>forward.
            Readdirnames fs (p\<lparr>Config := (Config p)\<lparr>Reverse := False\<rparr>\<rparr>) 0
              = Returns (forward, None) \<and>
            Readdirnames fs (p\<lparr>Config := (Config p)\<lparr>Reverse := True\<rparr>\<rparr>) 0
              = Returns (rev forward, None) \<and>
            (n = 0 \<or> int (length forward) \<le> n \<longrightarrow>
               Readdirnames fs (p\<lparr>Config := (Config p)\<lparr>Reverse := False\<rparr>\<rparr>) n
                 = Returns (forward, None) \<and>
               Readdirnames fs (p\<lparr>Config := (Config p)\<lparr>Reverse := True\<rparr>\<rparr>) n
                 = Returns (rev forward, None)) \<and>
            (0 < n \<and> n < int (length forward) \<longrightarrow>
               Readdirnames fs (p\<lparr>Config := (Config p)\<lparr>Reverse := False\<rparr>\<rparr>) n
                 = Returns (take (nat n) forward, None) \<and>
               Readdirnames fs (p\<lparr>Config := (Config p)\<lparr>Reverse := True\<rparr>\<rparr>) n
                 = Returns (take (nat n) (rev forward), None)))"
proof -
  obtain found where sc: "scan_paths fs (Config p) (Paths p) [] = Inr found"
    and lim: "limit_names n (sort_Sort (if Reverse (Config p) then Reverse_Less else Less)
           (map snd found)) = Returns (names, None)"
    using assms(2) by (rule Readdirnames_success)
  have d: "distinct (map filepath_Base (map snd found))"
    by (rule found_distinct_Base[OF sc assms(1)])
  obtain m where m: "names = take m (sort_Sort (if Reverse (Config p) then Reverse_Less else Less)
           (map snd found))"
    using limit_names_take[OF lim] by blast
  have ordered: "if Reverse (Config p)
          then sorted_wrt (\<lambda>a b. strings_Compare (filepath_Base b) (filepath_Base a) < 0) names
          else sorted_wrt (\<lambda>a b. strings_Compare (filepath_Base a) (filepath_Base b) < 0) names"
    using strict_sort_Sort_Less[OF d] strict_sort_Sort_Reverse[OF d]
    by (simp add: m sorted_wrt_take)
  have scan_indep: "scan_paths fs (c\<lparr>Reverse := r\<rparr>) ps fnd = scan_paths fs c ps fnd"
    for c r ps fnd
  proof -
    have "record_entry (c\<lparr>Reverse := r\<rparr>) = record_entry c"
      by (intro ext) (simp add: record_entry_def passes_def filter_parts_def)
    then show ?thesis by (simp add: scan_paths_fold split: sum.splits)
  qed
  let ?forward = "sort_Sort Less (map snd found)"
  have fn: "Readdirnames fs (p\<lparr>Config := (Config p)\<lparr>Reverse := False\<rparr>\<rparr>) i
      = limit_names i ?forward" for i
    using sc by (simp add: Readdirnames_def scan_indep)
  have rn: "Readdirnames fs (p\<lparr>Config := (Config p)\<lparr>Reverse := True\<rparr>\<rparr>) i
      = limit_names i (rev ?forward)" for i
    using sc by (simp add: Readdirnames_def scan_indep sort_Sort_Reverse[OF d])
  have f0: "Readdirnames fs (p\<lparr>Config := (Config p)\<lparr>Reverse := False\<rparr>\<rparr>) 0
      = Returns (?forward, None)"
    by (simp add: fn limit_names_def)
  have r0: "Readdirnames fs (p\<lparr>Config := (Config p)\<lparr>Reverse := True\<rparr>\<rparr>) 0
      = Returns (rev ?forward, None)"
    by (simp add: rn limit_names_def)
  have whole: "n = 0 \<or> int (length ?forward) \<le> n \<longrightarrow>
      Readdirnames fs (p\<lparr>Config := (Config p)\<lparr>Reverse := False\<rparr>\<rparr>) n
        = Returns (?forward, None) \<and>
      Readdirnames fs (p\<lparr>Config := (Config p)\<lparr>Reverse := True\<rparr>\<rparr>) n
        = Returns (rev ?forward, None)"
    by (auto simp: fn rn limit_names_def)
  have cut: "0 < n \<and> n < int (length ?forward) \<longrightarrow>
      Readdirnames fs (p\<lparr>Config := (Config p)\<lparr>Reverse := False\<rparr>\<rparr>) n
        = Returns (take (nat n) ?forward, None) \<and>
      Readdirnames fs (p\<lparr>Config := (Config p)\<lparr>Reverse := True\<rparr>\<rparr>) n
        = Returns (take (nat n) (rev ?forward), None)"
    by (auto simp: fn rn limit_names_def)
  from ordered f0 r0 whole cut show ?thesis by blast
qed

text \<open>
  The statement at the example session.
\<close>

theorem sorted_by_base_name_and_reverse_witness:
  "dir_names_valid ex_fs (Paths ex_p) \<and>
   Readdirnames ex_fs ex_p 0 = Returns (ex_names, None) \<and>
   Readdirnames ex_fs ex_p 2 = Returns (take 2 ex_names, None) \<and>
   sorted_wrt (\<lambda>a b. strings_Compare (filepath_Base a) (filepath_Base b) < 0) ex_names \<and>
   sorted_wrt (\<lambda>a b. strings_Compare (filepath_Base a) (filepath_Base b) < 0) (take 2 ex_names) \<and>
   Readdirnames ex_fs (ex_p\<lparr>Config := (Config ex_p)\<lparr>Reverse := True\<rparr>\<rparr>) 0
     = Returns (rev ex_names, None) \<and>
   Readdirnames ex_fs (ex_p\<lparr>Config := (Config ex_p)\<lparr>Reverse := True\<rparr>\<rparr>) 2
     = Returns (take 2 (rev ex_names), None)"
proof -
  have v: "dir_names_valid ex_fs (Paths ex_p)" using ex_valid by (simp add: ex_Paths)
  have two: "Readdirnames ex_fs ex_p 2 = Returns (take 2 ex_names, None)" by code_simp
  have f0: "Readdirnames ex_fs (ex_p\<lparr>Config := (Config ex_p)\<lparr>Reverse := False\<rparr>\<rparr>) 0
      = Returns (ex_names, None)" by code_simp
  have l: "length ex_names = 4" by (simp add: ex_names_def)
  have whole: "sorted_wrt (\<lambda>a b. strings_Compare (filepath_Base a) (filepath_Base b) < 0) ex_names \<and>
      Readdirnames ex_fs (ex_p\<lparr>Config := (Config ex_p)\<lparr>Reverse := True\<rparr>\<rparr>) 0
        = Returns (rev ex_names, None)"
    using sorted_by_base_name_and_reverse[OF v ex_resolved] f0 by (auto simp: ex_Reverse)
  have cut: "sorted_wrt (\<lambda>a b. strings_Compare (filepath_Base a) (filepath_Base b) < 0)
        (take 2 ex_names) \<and>
      Readdirnames ex_fs (ex_p\<lparr>Config := (Config ex_p)\<lparr>Reverse := True\<rparr>\<rparr>) 2
        = Returns (take 2 (rev ex_names), None)"
    using sorted_by_base_name_and_reverse[OF v two] f0 l by (auto simp: ex_Reverse)
  from v ex_resolved two whole cut show ?thesis by simp
qed

text \<open>
  As first stated, for every resolution, the reverse relation fails under a limit that
  cuts: with limit 2
  the example gives the two smallest names without \<^verbatim>\<open>Reverse\<close> and the two greatest
  with it, and the second list is not the reverse of the first.
\<close>

theorem reverse_with_limit_counterexample:
  "Readdirnames ex_fs (ex_p\<lparr>Config := (Config ex_p)\<lparr>Reverse := False\<rparr>\<rparr>) 2
     = Returns ([''etc/10-both'', ''etc/20-etc''], None) \<and>
   Readdirnames ex_fs (ex_p\<lparr>Config := (Config ex_p)\<lparr>Reverse := True\<rparr>\<rparr>) 2
     = Returns ([''t.conf'', ''lib/30-lib''], None) \<and>
   [''t.conf'', ''lib/30-lib''] \<noteq> rev [''etc/10-both'', ''etc/20-etc'']"
  by code_simp

text \<open>
  C6: with \<open>full\<close> the result for limit 0: limit 0 returns it, a limit \<open>n\<close> with
  \<open>0 < n < length full\<close> returns its first \<open>n\<close> elements, and a limit of at least its
  length returns it whole.
\<close>

theorem limit_semantics:
  assumes "Readdirnames fs p 0 = Returns (full, None)"
  shows "(n = 0 \<longrightarrow> Readdirnames fs p n = Returns (full, None)) \<and>
         (0 < n \<and> n < int (length full) \<longrightarrow>
            Readdirnames fs p n = Returns (take (nat n) full, None)) \<and>
         (int (length full) \<le> n \<longrightarrow> Readdirnames fs p n = Returns (full, None))"
  using assms
  by (auto simp: Readdirnames_def limit_names_def split: sum.splits)

text \<open>
  The statement at the example session.
\<close>

theorem limit_semantics_witness:
  "Readdirnames ex_fs ex_p 0 = Returns (ex_names, None) \<and>
   Readdirnames ex_fs ex_p 2 = Returns (take 2 ex_names, None) \<and>
   Readdirnames ex_fs ex_p 4 = Returns (ex_names, None) \<and>
   Readdirnames ex_fs ex_p 9 = Returns (ex_names, None)"
proof -
  have l: "length ex_names = 4" by (simp add: ex_names_def)
  show ?thesis
    using limit_semantics[OF ex_resolved, of 2] limit_semantics[OF ex_resolved, of 4]
      limit_semantics[OF ex_resolved, of 9] ex_resolved l
    by simp
qed

text \<open>
  C10: when the resolution succeeds, a negative limit \<open>n\<close> does not return: \<open>n\<close> is
  below the length of the names, and \<^verbatim>\<open>names[0:n]\<close> panics.
\<close>

theorem negative_limit_panics:
  assumes "Readdirnames fs p 0 = Returns (full, None)" and "n < 0"
  shows "Readdirnames fs p n = Panics (SliceBoundsOutOfRange n)"
  using assms
  by (auto simp: Readdirnames_def limit_names_def split: sum.splits)

text \<open>
  The statement at the example session.
\<close>

theorem negative_limit_panics_witness:
  "Readdirnames ex_fs ex_p 0 = Returns (ex_names, None) \<and> (- 1 :: int) < 0 \<and>
   Readdirnames ex_fs ex_p (- 1) = Panics (SliceBoundsOutOfRange (- 1))"
proof -
  have n: "(- 1 :: int) < 0" by simp
  show ?thesis using negative_limit_panics[OF ex_resolved n] ex_resolved by simp
qed

text \<open>
  C2: a session without read state, a buffer of \<open>k > 0\<close> bytes, a resolution that
  succeeds with \<open>names\<close>, and every name opens and reads without an error. Then calling
  \<^verbatim>\<open>Read\<close> until it returns an error ends, within one call more than there are bytes, with
  exactly the contents of the files in the order of \<open>names\<close>, nothing between them, and
  the error that ends it is \<^verbatim>\<open>io.EOF\<close>, which no I/O error is.
\<close>

theorem stream_is_concatenation:
  assumes "readState p = None" and "0 < k"
    and "Readdirnames fs p 0 = Returns (names, None)"
    and "list_all (reads_cleanly fs) names"
    and "length (concat (map (file_contents fs) names)) < fuel"
  shows "\<exists>p'. read_until_error fuel fs p k []
             = Some (Returns (concat (map (file_contents fs) names), EOF, p'))"
proof -
  obtain files where files: "open_files fs names [] = (files, None)"
    "no_read_errors files" "stream files = concat (map (file_contents fs) names)"
    using open_files_all[OF assms(4), of "[]"] by auto
  let ?rs = "\<lparr>Files = files, Reader = Some files\<rparr>"
  let ?q = "p\<lparr>readState := Some ?rs\<rparr>"
  have first: "Read fs p k = Read fs ?q k"
    using assms(1,3) files(1) by (simp add: Read_def Reader_Read_def)
  obtain fuel' where fuel: "fuel = Suc fuel'" using assms(5) by (cases fuel) auto
  have "read_until_error fuel fs p k [] = read_until_error fuel fs ?q k []"
    by (simp add: fuel first)
  moreover have "\<exists>p'. read_until_error fuel fs ?q k []
      = Some (Returns ([] @ stream files, EOF, p'))"
    by (rule read_until_error_stream[OF assms(2), of ?q ?rs files]) (simp_all add: files assms(5))
  ultimately show ?thesis by (simp add: files(3))
qed

text \<open>
  The statement at the example session.
\<close>

theorem stream_is_concatenation_witness:
  "readState ex_p = None \<and> Readdirnames ex_fs ex_p 0 = Returns (ex_names, None) \<and>
   list_all (reads_cleanly ex_fs) ex_names \<and>
   (\<exists>p'. read_until_error 10 ex_fs ex_p 4 []
      = Some (Returns ([1, 2, 3, 5, 6, 7, 8, 9, 10], EOF, p')))"
proof -
  have s: "readState ex_p = None" by (simp add: ex_p_def NewParts_def)
  have k: "0 < (4 :: nat)" by simp
  have c: "list_all (reads_cleanly ex_fs) ex_names" by code_simp
  have e: "concat (map (file_contents ex_fs) ex_names) = [1, 2, 3, 5, 6, 7, 8, 9, 10]"
    by code_simp
  have f: "length (concat (map (file_contents ex_fs) ex_names)) < 10" by (simp add: e)
  show ?thesis
    using stream_is_concatenation[OF s k ex_resolved c f] s ex_resolved c by (simp add: e)
qed

text \<open>
  C4: the second resolved file cannot be opened. The first \<^verbatim>\<open>Read\<close> returns the error
  of \<^verbatim>\<open>os.Open\<close>, and leaves a read state that holds the file opened before and no
  reader; the next \<^verbatim>\<open>Read\<close> does not start afresh but calls the missing reader and
  panics. (When the resolution itself fails no read state is kept:
  \<open>Read_resolution_error\<close>; the general form of this case is \<open>Read_open_error\<close>.)
\<close>

theorem Read_keeps_half_built_state:
  "Read ex_locked_fs ex_p 4 = Returns ([], Some (SysError ''EACCES''), ex_half_built) \<and>
   readState ex_half_built = Some \<lparr>Files = [ex_regular [1, 2, 3]], Reader = None\<rparr> \<and>
   Read ex_locked_fs ex_half_built 4 = Panics NilDereference"
proof -
  have s: "readState ex_p = None" by (simp add: ex_p_def NewParts_def)
  have r: "Readdirnames ex_locked_fs ex_p 0 = Returns (ex_names, None)" by code_simp
  have opn: "open_files ex_locked_fs ex_names []
      = ([ex_regular [1, 2, 3]], Some (SysError ''EACCES''))" by code_simp
  have h: "readState ex_half_built = Some \<lparr>Files = [ex_regular [1, 2, 3]], Reader = None\<rparr>"
    by (simp add: ex_half_built_def)
  have first: "Read ex_locked_fs ex_p 4 = Returns ([], Some (SysError ''EACCES''), ex_half_built)"
    by (simp add: Read_def s r opn ex_half_built_def)
  have second: "Read ex_locked_fs ex_half_built 4 = Panics NilDereference"
    by (simp add: Read_def h Reader_Read_def)
  from first h second show ?thesis by simp
qed

text \<open>
  C3: a session whose second open file fails to close. \<^verbatim>\<open>Close\<close> closes both files
  and resets the read state, but returns no error: \<^verbatim>\<open>err\<close> is assigned only when it is
  already set, so it never is (\<open>Close_returns_no_error\<close>).
\<close>

theorem Close_drops_the_error:
  "close_err ex_stuck = Some (SysError ''EIO'') \<and>
   Close ex_reading = (None, ex_p, [ex_regular [1, 2, 3], ex_stuck])"
proof -
  have e: "close_err ex_stuck = Some (SysError ''EIO'')" by (simp add: ex_stuck_def)
  have c: "close_files [ex_regular [1, 2, 3], ex_stuck] None []
      = (None, [ex_regular [1, 2, 3], ex_stuck])" by (simp add: e)
  have "Close ex_reading = (None, ex_p, [ex_regular [1, 2, 3], ex_stuck])"
    by (simp add: Close_def ex_reading_def c ex_p_def NewParts_def)
  with e show ?thesis by simp
qed

text \<open>
  C9: for the native mode \<^verbatim>\<open>0644\<close> of a regular file \<^verbatim>\<open>FileInfo.Mode\<close> returns
  \<^verbatim>\<open>ModeRegular\<close> alone, without the permission bits, while \<^verbatim>\<open>StatMode\<close> returns them
  together with \<^verbatim>\<open>ModeRegular\<close>.
\<close>

theorem FileInfo_Mode_drops_permissions:
  "FileInfo_Mode 420 = ModeRegular \<and> Perm (FileInfo_Mode 420) = 0 \<and> Perm 420 = 420 \<and>
   StatMode ex_fs ''t.conf'' = Inr (420 OR ModeRegular) \<and> Perm (420 OR ModeRegular) = 420"
  by code_simp

end
